theory Spec2Isabelle
  imports Main "HOL-Library.Sublist"
begin

section \<open>Python values and subscription\<close>

text \<open>
  The helper \<^verbatim>\<open>get_value_at_index(obj, index)\<close> of \<^verbatim>\<open>zavy.py\<close> subscripts
  an arbitrary Python object. The objects it is meant for are sequences (lists, tuples and
  strings) and dictionaries; integers and \<^verbatim>\<open>None\<close> stand for objects that cannot be
  subscripted. A dictionary is an association list read with \<open>map_of\<close>. The
  keys that the function ever looks up are an integer and the string \<^verbatim>\<open>"result"\<close>,
  so keys are integers or strings.
\<close>

datatype pykey = KInt int | KStr string

datatype pyval =
    VNone
  | VInt int
  | VStr string
  | VList "pyval list"
  | VTuple "pyval list"
  | VDict "(pykey \<times> pyval) list"

datatype py_error = IndexError | KeyError | TypeError

text \<open>
  Indexing a Python sequence of length \<open>n\<close> with an integer \<open>i\<close>: a negative index
  counts from the end, and an index outside \<open>-n \<le> i < n\<close> raises \<^verbatim>\<open>IndexError\<close>.
\<close>

definition py_index :: "'a list \<Rightarrow> int \<Rightarrow> py_error + 'a" where
  "py_index xs i =
     (let n = int (length xs);
          j = (if i < 0 then i + n else i)
      in if 0 \<le> j \<and> j < n then Inr (xs ! nat j) else Inl IndexError)"

text \<open>
  \<^verbatim>\<open>obj[key]\<close>. A sequence accepts integer keys only (a string key is a
  \<^verbatim>\<open>TypeError\<close>); indexing a string gives the one-character string; a dictionary
  raises \<^verbatim>\<open>KeyError\<close> for a key it does not hold.
\<close>

fun py_getitem :: "pyval \<Rightarrow> pykey \<Rightarrow> py_error + pyval" where
  "py_getitem (VList xs) (KInt i) = py_index xs i"
| "py_getitem (VTuple xs) (KInt i) = py_index xs i"
| "py_getitem (VStr s) (KInt i) =
     (case py_index s i of Inl e \<Rightarrow> Inl e | Inr c \<Rightarrow> Inr (VStr [c]))"
| "py_getitem (VDict kvs) k =
     (case map_of kvs k of None \<Rightarrow> Inl KeyError | Some v \<Rightarrow> Inr v)"
| "py_getitem _ _ = Inl TypeError"

section \<open>\<^verbatim>\<open>get_value_at_index\<close>\<close>

text \<open>
  \<^verbatim>\<open>
  def get_value_at_index(obj, index):
      try:
          return obj[index]
      except KeyError:
          return obj["result"][index]
  \<close>
  The model returns the outcome (\<open>Inl\<close> the exception that reaches the caller) together
  with the subscriptions that were evaluated, in order, each as the pair of the object
  subscripted and the key. Only \<^verbatim>\<open>KeyError\<close> is caught; the handler's own exceptions
  are not caught by anything.
\<close>

definition get_value_at_index ::
    "pyval \<Rightarrow> int \<Rightarrow> (py_error + pyval) \<times> (pyval \<times> pykey) list" where
  "get_value_at_index obj index =
     (case py_getitem obj (KInt index) of
        Inr v \<Rightarrow> (Inr v, [(obj, KInt index)])
      | Inl e \<Rightarrow>
          (if e = KeyError then
             (case py_getitem obj (KStr ''result'') of
                Inl e' \<Rightarrow> (Inl e', [(obj, KInt index), (obj, KStr ''result'')])
              | Inr r \<Rightarrow>
                  (py_getitem r (KInt index),
                   [(obj, KInt index), (obj, KStr ''result''), (r, KInt index)]))
           else (Inl e, [(obj, KInt index)])))"

text \<open>
  The items of an ordered sequence, as indexing returns them: the elements of a list or a
  tuple, the one-character strings of a string. Used to state what the claims call
  \<open>s[i]\<close>.
\<close>

fun seq_items :: "pyval \<Rightarrow> pyval list option" where
  "seq_items (VList xs) = Some xs"
| "seq_items (VTuple xs) = Some xs"
| "seq_items (VStr s) = Some (map (\<lambda>c. VStr [c]) s)"
| "seq_items _ = None"

section \<open>The filesystem and \<^verbatim>\<open>os.path\<close>\<close>

text \<open>
  \<^verbatim>\<open>find_path\<close> reads the process's working directory and lists directories, and it
  prints a line when it finds the name. The world it runs in is a record: the working
  directory, what listing each path gives (the entry names, or the \<^verbatim>\<open>OSError\<close>
  raised), the lines printed so far, and the paths that \<^verbatim>\<open>os.listdir\<close> has been called
  with, in order. The function never writes to the first two fields.
\<close>

datatype os_error = FileNotFoundError | NotADirectoryError | PermissionError

record world =
  cwd :: string
  listing :: "string \<Rightarrow> os_error + string list"
  stdout :: "string list"
  listed :: "string list"

definition os_getcwd :: "world \<Rightarrow> string" where
  "os_getcwd w = cwd w"

text \<open>
  \<^verbatim>\<open>os.listdir(path)\<close>. The empty string names no directory: the operating system
  refuses to resolve it, and \<^verbatim>\<open>os.listdir('')\<close> raises \<^verbatim>\<open>FileNotFoundError\<close>
  whatever the filesystem holds.
\<close>

definition os_listdir :: "string \<Rightarrow> world \<Rightarrow> (os_error + string list) \<times> world" where
  "os_listdir path w =
     (if path = [] then Inl FileNotFoundError else listing w path,
      w\<lparr>listed := listed w @ [path]\<rparr>)"

definition py_print :: "string \<Rightarrow> world \<Rightarrow> world" where
  "py_print line w = w\<lparr>stdout := stdout w @ [line]\<rparr>"

text \<open>
  \<^verbatim>\<open>os.path.join(a, b)\<close> and \<^verbatim>\<open>os.path.dirname(p)\<close> as \<^verbatim>\<open>posixpath\<close>
  computes them on a POSIX system, on strings alone:
  \<^verbatim>\<open>
  def join(a, b):
      if b.startswith('/'): path = b
      elif not a or a.endswith('/'): path = a + b
      else: path = a + '/' + b
      return path

  def dirname(p):
      i = p.rfind('/') + 1
      head = p[:i]
      if head and head != '/' * len(head):
          head = head.rstrip('/')
      return head
  \<close>
  \<open>p[:p.rfind('/') + 1]\<close> is \<open>p\<close> without the characters after its last slash, and
  is empty when \<open>p\<close> has no slash.
\<close>

definition os_path_join :: "string \<Rightarrow> string \<Rightarrow> string" where
  "os_path_join a b =
     (if b \<noteq> [] \<and> hd b = CHR ''/'' then b
      else if a = [] \<or> last a = CHR ''/'' then a @ b
      else a @ ''/'' @ b)"

definition os_path_dirname :: "string \<Rightarrow> string" where
  "os_path_dirname p =
     (let head = rev (dropWhile (\<lambda>c. c \<noteq> CHR ''/'') (rev p))
      in if head \<noteq> [] \<and> head \<noteq> replicate (length head) (CHR ''/'')
         then rev (dropWhile (\<lambda>c. c = CHR ''/'') (rev head))
         else head)"

text \<open>
  The parent that \<^verbatim>\<open>dirname\<close> computes is an initial segment of the path, so a
  parent that differs from the path is shorter: the ascent of \<^verbatim>\<open>find_path\<close> ends.
\<close>

lemma prefix_rev_dropWhile: "prefix (rev (dropWhile P (rev xs))) xs"
proof -
  have "rev (dropWhile P (rev xs)) @ rev (takeWhile P (rev xs)) = xs"
    by (metis rev_append rev_rev_ident takeWhile_dropWhile_id)
  then show ?thesis by (metis prefixI)
qed

lemma prefix_dirname: "prefix (os_path_dirname p) p"
proof -
  define head where "head = rev (dropWhile (\<lambda>c. c \<noteq> CHR ''/'') (rev p))"
  have h1: "prefix head p"
    unfolding head_def by (rule prefix_rev_dropWhile)
  have h2: "prefix (rev (dropWhile (\<lambda>c. c = CHR ''/'') (rev head))) head"
    by (rule prefix_rev_dropWhile)
  have "os_path_dirname p = head \<or>
        os_path_dirname p = rev (dropWhile (\<lambda>c. c = CHR ''/'') (rev head))"
    unfolding os_path_dirname_def Let_def head_def [symmetric] by simp
  with h1 h2 show ?thesis
    using prefix_order.trans by auto
qed

lemma dirname_shorter: "os_path_dirname p \<noteq> p \<Longrightarrow> length (os_path_dirname p) < length p"
proof -
  assume ne: "os_path_dirname p \<noteq> p"
  obtain zs where zs: "p = os_path_dirname p @ zs"
    using prefix_dirname [of p] by (auto simp: prefix_def)
  with ne have "zs \<noteq> []" by auto
  then have "length (os_path_dirname p) < length (os_path_dirname p @ zs)" by simp
  with zs show ?thesis by simp
qed

section \<open>\<^verbatim>\<open>find_path\<close>\<close>

text \<open>
  \<^verbatim>\<open>
  def find_path(name, path=None):
      if path is None:
          path = os.getcwd()
      if name in os.listdir(path):
          path_name = os.path.join(path, name)
          print(f"{name} found: {path_name}")
          return path_name
      parent_directory = os.path.dirname(path)
      if parent_directory == path:
          return None
      return find_path(name, parent_directory)
  \<close>
  The optional argument is an \<open>option\<close>. The outcome is \<open>Inl\<close> the \<^verbatim>\<open>OSError\<close>
  that \<^verbatim>\<open>os.listdir\<close> raised, which nothing catches, or \<open>Inr\<close> the returned value:
  \<open>Some\<close> the joined path or \<open>None\<close>. The recursion is the source's own; the
  interpreter's bound on the depth of the call stack is not part of the model.
\<close>

function find_path ::
    "string \<Rightarrow> string option \<Rightarrow> world \<Rightarrow> (os_error + string option) \<times> world" where
  "find_path name path_arg w =
     (let path = (case path_arg of None \<Rightarrow> os_getcwd w | Some p \<Rightarrow> p) in
      case os_listdir path w of
        (Inl e, w1) \<Rightarrow> (Inl e, w1)
      | (Inr entries, w1) \<Rightarrow>
          if name \<in> set entries then
            (let path_name = os_path_join path name;
                 w2 = py_print (name @ '' found: '' @ path_name) w1
             in (Inr (Some path_name), w2))
          else
            (let parent_directory = os_path_dirname path in
             if parent_directory = path then (Inr None, w1)
             else find_path name (Some parent_directory) w1))"
  by pat_completeness auto
termination
  apply (relation "measure (\<lambda>(name, path_arg, w).
           length (case path_arg of None \<Rightarrow> os_getcwd w | Some p \<Rightarrow> p))")
   apply simp
  apply (auto simp: dirname_shorter)
  done

declare find_path.simps [simp del]

text \<open>
  The directories that an unsuccessful search from \<open>p\<close> goes through: \<open>p\<close>, its
  parent, and so on up to the first path that is its own parent.
\<close>

function ancestors :: "string \<Rightarrow> string list" where
  "ancestors p =
     (if os_path_dirname p = p then [p] else p # ancestors (os_path_dirname p))"
  by pat_completeness auto
termination
  by (relation "measure length") (auto simp: dirname_shorter)

declare ancestors.simps [simp del]

text \<open>
  What a listing of \<open>d\<close> tells about \<open>name\<close>: the listing succeeds and holds
  the name, or succeeds and does not hold it. Both are false when the listing raises.
\<close>

definition dir_has :: "world \<Rightarrow> string \<Rightarrow> string \<Rightarrow> bool" where
  "dir_has w name d = (case fst (os_listdir d w) of Inl e \<Rightarrow> False | Inr es \<Rightarrow> name \<in> set es)"

definition dir_lacks :: "world \<Rightarrow> string \<Rightarrow> string \<Rightarrow> bool" where
  "dir_lacks w name d = (case fst (os_listdir d w) of Inl e \<Rightarrow> False | Inr es \<Rightarrow> name \<notin> set es)"

text \<open>
  \<^verbatim>\<open>os.path.isabs(p)\<close> is \<^verbatim>\<open>p.startswith('/')\<close>. \<^verbatim>\<open>find_path\<close> does not call
  it; the properties below distinguish absolute from relative starting directories.
\<close>

definition os_path_isabs :: "string \<Rightarrow> bool" where
  "os_path_isabs p = (p \<noteq> [] \<and> hd p = CHR ''/'')"

text \<open>
  A small filesystem for the examples: the root holds \<^verbatim>\<open>srv\<close> and \<^verbatim>\<open>ComfyUI\<close>,
  \<^verbatim>\<open>/srv\<close> holds \<^verbatim>\<open>app\<close>, and \<^verbatim>\<open>/srv/app\<close> holds \<^verbatim>\<open>main.py\<close>. The
  working directory is \<^verbatim>\<open>/srv\<close>, so the relative path \<^verbatim>\<open>app\<close> names
  \<^verbatim>\<open>/srv/app\<close>. Any other path does not exist.
\<close>

definition demo_dirs :: "(string \<times> string list) list" where
  "demo_dirs =
     [(''/'', [''srv'', ''ComfyUI'']),
      (''/srv'', [''app'']),
      (''/srv/app'', [''main.py'']),
      (''app'', [''main.py''])]"

definition demo_world :: world where
  "demo_world =
     \<lparr>cwd = ''/srv'',
      listing = (\<lambda>p. case map_of demo_dirs p of
                         None \<Rightarrow> Inl FileNotFoundError
                       | Some es \<Rightarrow> Inr es),
      stdout = [],
      listed = []\<rparr>"

section \<open>Subscription lemmas\<close>

lemma py_index_nonneg:
  "0 \<le> i \<Longrightarrow> i < int (length xs) \<Longrightarrow> py_index xs i = Inr (xs ! nat i)"
  by (simp add: py_index_def)

lemma py_index_neg:
  "i < 0 \<Longrightarrow> - i \<le> int (length xs) \<Longrightarrow> py_index xs i = Inr (xs ! (length xs - nat (- i)))"
proof -
  assume a: "i < 0" "- i \<le> int (length xs)"
  then have "nat (i + int (length xs)) = length xs - nat (- i)" by linarith
  with a show ?thesis by (simp add: py_index_def)
qed

lemma py_index_not_KeyError: "py_index xs i \<noteq> Inl KeyError"
  by (simp add: py_index_def Let_def)

lemma py_getitem_seq_nonneg:
  "seq_items s = Some xs \<Longrightarrow> 0 \<le> i \<Longrightarrow> i < int (length xs) \<Longrightarrow>
   py_getitem s (KInt i) = Inr (xs ! nat i)"
  by (cases s) (auto simp: py_index_nonneg)

lemma py_getitem_seq_neg:
  "seq_items s = Some xs \<Longrightarrow> i < 0 \<Longrightarrow> - i \<le> int (length xs) \<Longrightarrow>
   py_getitem s (KInt i) = Inr (xs ! (length xs - nat (- i)))"
  by (cases s) (auto simp: py_index_neg)

lemma py_getitem_IndexError_seq:
  "py_getitem obj k = Inl IndexError \<Longrightarrow> seq_items obj \<noteq> None"
  by (cases obj; cases k) (auto split: option.splits)

section \<open>Properties of \<^verbatim>\<open>get_value_at_index\<close>\<close>

text \<open>
  C1. The fallback subscription \<^verbatim>\<open>obj["result"]\<close> is evaluated exactly when the
  direct subscription \<^verbatim>\<open>obj[index]\<close> raises \<^verbatim>\<open>KeyError\<close>. When the direct
  subscription raises \<^verbatim>\<open>IndexError\<close> (which only a sequence does), the direct
  subscription is the only one evaluated and \<^verbatim>\<open>IndexError\<close> reaches the caller. This
  holds for every index, in particular for every non-negative one.
\<close>

theorem fallback_only_on_KeyError:
  "((obj, KStr ''result'') \<in> set (snd (get_value_at_index obj index))
      \<longleftrightarrow> py_getitem obj (KInt index) = Inl KeyError)
   \<and> (py_getitem obj (KInt index) = Inl IndexError \<longrightarrow>
        seq_items obj \<noteq> None \<and>
        get_value_at_index obj index = (Inl IndexError, [(obj, KInt index)]))"
proof -
  have a: "(obj, KStr ''result'') \<in> set (snd (get_value_at_index obj index))
      \<longleftrightarrow> py_getitem obj (KInt index) = Inl KeyError"
    by (auto simp: get_value_at_index_def split: sum.splits)
  have b: "get_value_at_index obj index = (Inl IndexError, [(obj, KInt index)])"
    if "py_getitem obj (KInt index) = Inl IndexError"
    using that by (simp add: get_value_at_index_def)
  show ?thesis
    using a b py_getitem_IndexError_seq by blast
qed

theorem fallback_only_on_KeyError_witness:
  "get_value_at_index (VList [VInt 7, VInt 8]) 2 =
     (Inl IndexError, [(VList [VInt 7, VInt 8], KInt 2)])
   \<and> (VDict [(KStr ''result'', VList [VInt 7])], KStr ''result'')
       \<in> set (snd (get_value_at_index (VDict [(KStr ''result'', VList [VInt 7])]) 0))"
proof -
  have i: "py_getitem (VList [VInt 7, VInt 8]) (KInt 2) = Inl IndexError"
    by (simp add: py_index_def)
  have k: "py_getitem (VDict [(KStr ''result'', VList [VInt 7])]) (KInt 0) = Inl KeyError"
    by simp
  show ?thesis
    using fallback_only_on_KeyError [of "VList [VInt 7, VInt 8]" 2] i
      fallback_only_on_KeyError [of "VDict [(KStr ''result'', VList [VInt 7])]" 0] k
    by blast
qed

text \<open>
  C2. A dictionary without the integer key \<open>i\<close> whose key \<^verbatim>\<open>"result"\<close> (this exact
  string, singular) holds an ordered sequence \<open>r\<close> with items \<open>xs\<close>: for every index
  \<open>i\<close> with \<open>0 \<le> i < length xs\<close> the function returns \<open>xs ! i\<close>, that is
  \<open>r[i]\<close>. The key \<^verbatim>\<open>"results"\<close> that the docstring mentions is never read: a
  dictionary that holds the sequence under \<^verbatim>\<open>"results"\<close> and has no key
  \<^verbatim>\<open>"result"\<close> gives \<^verbatim>\<open>KeyError\<close>.
\<close>

theorem fallback_result_sequence:
  "(map_of kvs (KInt i) = None \<and> map_of kvs (KStr ''result'') = Some r \<and>
    seq_items r = Some xs \<and> 0 \<le> i \<and> i < int (length xs) \<longrightarrow>
      get_value_at_index (VDict kvs) i =
        (Inr (xs ! nat i),
         [(VDict kvs, KInt i), (VDict kvs, KStr ''result''), (r, KInt i)]))
   \<and> (map_of kvs (KInt i) = None \<and> map_of kvs (KStr ''result'') = None \<and>
       map_of kvs (KStr ''results'') = Some r \<longrightarrow>
      fst (get_value_at_index (VDict kvs) i) = Inl KeyError)"
proof -
  have a: "get_value_at_index (VDict kvs) i =
        (Inr (xs ! nat i),
         [(VDict kvs, KInt i), (VDict kvs, KStr ''result''), (r, KInt i)])"
    if m: "map_of kvs (KInt i) = None" "map_of kvs (KStr ''result'') = Some r"
      and r: "seq_items r = Some xs" "0 \<le> i" "i < int (length xs)"
  proof -
    have "py_getitem r (KInt i) = Inr (xs ! nat i)"
      using r by (rule py_getitem_seq_nonneg)
    with m show ?thesis
      by (simp add: get_value_at_index_def)
  qed
  have b: "fst (get_value_at_index (VDict kvs) i) = Inl KeyError"
    if "map_of kvs (KInt i) = None" "map_of kvs (KStr ''result'') = None"
    using that by (simp add: get_value_at_index_def)
  show ?thesis
    using a b by blast
qed

theorem fallback_result_sequence_witness:
  "fst (get_value_at_index
          (VDict [(KInt 0, VInt 5), (KStr ''result'', VList [VInt 10, VInt 20, VInt 30])]) 1)
     = Inr (VInt 20)
   \<and> fst (get_value_at_index
          (VDict [(KInt 0, VInt 5), (KStr ''results'', VList [VInt 10, VInt 20, VInt 30])]) 1)
     = Inl KeyError"
  using fallback_result_sequence
      [of "[(KInt 0, VInt 5), (KStr ''result'', VList [VInt 10, VInt 20, VInt 30])]"
          1 "VList [VInt 10, VInt 20, VInt 30]" "[VInt 10, VInt 20, VInt 30]"]
    fallback_result_sequence
      [of "[(KInt 0, VInt 5), (KStr ''results'', VList [VInt 10, VInt 20, VInt 30])]"
          1 "VList [VInt 10, VInt 20, VInt 30]" "[VInt 10, VInt 20, VInt 30]"]
  by simp

text \<open>
  C6. A dictionary that holds neither the integer key \<open>i\<close> nor the key
  \<^verbatim>\<open>"result"\<close>: the \<^verbatim>\<open>KeyError\<close> of the fallback subscription, which is
  evaluated after the direct one, reaches the caller.
\<close>

theorem missing_both_keys_KeyError:
  assumes "map_of kvs (KInt i) = None"
    and "map_of kvs (KStr ''result'') = None"
  shows "get_value_at_index (VDict kvs) i =
           (Inl KeyError, [(VDict kvs, KInt i), (VDict kvs, KStr ''result'')])"
  using assms by (simp add: get_value_at_index_def)

theorem missing_both_keys_KeyError_witness:
  "get_value_at_index (VDict [(KInt 0, VInt 5), (KStr ''results'', VList [VInt 1, VInt 2])]) 1 =
     (Inl KeyError,
      [(VDict [(KInt 0, VInt 5), (KStr ''results'', VList [VInt 1, VInt 2])], KInt 1),
       (VDict [(KInt 0, VInt 5), (KStr ''results'', VList [VInt 1, VInt 2])], KStr ''result'')])"
  using missing_both_keys_KeyError
    [of "[(KInt 0, VInt 5), (KStr ''results'', VList [VInt 1, VInt 2])]" 1]
  by simp

text \<open>
  C7. When the direct subscription succeeds its value is returned and nothing else is
  evaluated: for an ordered sequence with items \<open>xs\<close> and an index \<open>0 \<le> i < length xs\<close>
  the result is \<open>xs ! i\<close>, and for a dictionary that maps the key \<open>i\<close> to \<open>v\<close> the
  result is \<open>v\<close>.
\<close>

theorem direct_lookup_returned:
  "(py_getitem obj (KInt i) = Inr v \<longrightarrow>
      get_value_at_index obj i = (Inr v, [(obj, KInt i)]))
   \<and> (seq_items s = Some xs \<and> 0 \<le> i \<and> i < int (length xs) \<longrightarrow>
      fst (get_value_at_index s i) = Inr (xs ! nat i))
   \<and> (map_of kvs (KInt i) = Some v \<longrightarrow>
      fst (get_value_at_index (VDict kvs) i) = Inr v)"
proof -
  have a: "get_value_at_index obj i = (Inr v, [(obj, KInt i)])"
    if "py_getitem obj (KInt i) = Inr v" for obj v
    using that by (simp add: get_value_at_index_def)
  have b: "fst (get_value_at_index s i) = Inr (xs ! nat i)"
    if "seq_items s = Some xs" "0 \<le> i" "i < int (length xs)"
    using a [OF py_getitem_seq_nonneg [OF that]] by simp
  have c: "fst (get_value_at_index (VDict kvs) i) = Inr v"
    if "map_of kvs (KInt i) = Some v"
    using that a [of "VDict kvs"] by simp
  show ?thesis
    using a b c by blast
qed

theorem direct_lookup_returned_witness:
  "get_value_at_index (VTuple [VInt 4, VStr ''ab'']) 1 =
     (Inr (VStr ''ab''), [(VTuple [VInt 4, VStr ''ab''], KInt 1)])
   \<and> fst (get_value_at_index (VStr ''xyz'') 1) = Inr (VStr ''y'')
   \<and> fst (get_value_at_index (VDict [(KInt 1, VStr ''ab''), (KStr ''result'', VList [])]) 1)
       = Inr (VStr ''ab'')"
proof -
  have d: "py_getitem (VTuple [VInt 4, VStr ''ab'']) (KInt 1) = Inr (VStr ''ab'')"
    by (simp add: py_index_def)
  show ?thesis
    using direct_lookup_returned
      [of "VTuple [VInt 4, VStr ''ab'']" 1 "VStr ''ab''"
          "VStr ''xyz''" "[VStr ''x'', VStr ''y'', VStr ''z'']"
          "[(KInt 1, VStr ''ab''), (KStr ''result'', VList [])]"] d
    by simp
qed

text \<open>
  C10. A negative index \<open>i\<close> with \<open>- i \<le> length xs\<close> on an ordered sequence with
  items \<open>xs\<close> returns the item counted from the end, \<open>xs ! (length xs - |i|)\<close>, and no
  error.
\<close>

theorem negative_index_from_end:
  assumes "seq_items s = Some xs"
    and "i < 0" and "- i \<le> int (length xs)"
  shows "get_value_at_index s i = (Inr (xs ! (length xs - nat (- i))), [(s, KInt i)])"
  using py_getitem_seq_neg [OF assms] by (simp add: get_value_at_index_def)

theorem negative_index_from_end_witness:
  "get_value_at_index (VList [VInt 10, VInt 20, VInt 30]) (- 1) =
     (Inr (VInt 30), [(VList [VInt 10, VInt 20, VInt 30], KInt (- 1))])"
  using negative_index_from_end
    [of "VList [VInt 10, VInt 20, VInt 30]" "[VInt 10, VInt 20, VInt 30]" "- 1"]
  by simp

section \<open>One step of \<^verbatim>\<open>find_path\<close>\<close>

lemma fst_os_listdir:
  "fst (os_listdir p w) = (if p = [] then Inl FileNotFoundError else listing w p)"
  by (simp add: os_listdir_def)

lemma find_path_None: "find_path name None w = find_path name (Some (cwd w)) w"
  by (simp add: find_path.simps [of name None] find_path.simps [of name "Some (cwd w)"]
      os_getcwd_def)

lemma find_path_error:
  "fst (os_listdir p w) = Inl e \<Longrightarrow>
   find_path name (Some p) w = (Inl e, w\<lparr>listed := listed w @ [p]\<rparr>)"
  by (simp add: find_path.simps [of name "Some p"] os_listdir_def)

lemma find_path_found:
  "fst (os_listdir p w) = Inr es \<Longrightarrow> name \<in> set es \<Longrightarrow>
   find_path name (Some p) w =
     (Inr (Some (os_path_join p name)),
      w\<lparr>stdout := stdout w @ [name @ '' found: '' @ os_path_join p name],
        listed := listed w @ [p]\<rparr>)"
  by (simp add: find_path.simps [of name "Some p"] os_listdir_def py_print_def Let_def)

lemma find_path_root:
  "fst (os_listdir p w) = Inr es \<Longrightarrow> name \<notin> set es \<Longrightarrow> os_path_dirname p = p \<Longrightarrow>
   find_path name (Some p) w = (Inr None, w\<lparr>listed := listed w @ [p]\<rparr>)"
  by (simp add: find_path.simps [of name "Some p"] os_listdir_def)

lemma find_path_ascend:
  "fst (os_listdir p w) = Inr es \<Longrightarrow> name \<notin> set es \<Longrightarrow> os_path_dirname p \<noteq> p \<Longrightarrow>
   find_path name (Some p) w =
     find_path name (Some (os_path_dirname p)) (w\<lparr>listed := listed w @ [p]\<rparr>)"
  by (simp add: find_path.simps [of name "Some p"] os_listdir_def)


lemma dir_lacks_listed [simp]: "dir_lacks (w\<lparr>listed := l\<rparr>) name = dir_lacks w name"
  by (rule ext) (simp add: dir_lacks_def fst_os_listdir)

lemma dir_has_listed [simp]: "dir_has (w\<lparr>listed := l\<rparr>) name = dir_has w name"
  by (rule ext) (simp add: dir_has_def fst_os_listdir)

lemma ancestors_root: "os_path_dirname p = p \<Longrightarrow> ancestors p = [p]"
  by (simp add: ancestors.simps [of p])

lemma ancestors_step:
  "os_path_dirname p \<noteq> p \<Longrightarrow> ancestors p = p # ancestors (os_path_dirname p)"
  by (simp add: ancestors.simps [of p])

lemma ancestors_hd: "\<exists>ds. ancestors p = p # ds"
  by (cases "os_path_dirname p = p") (simp_all add: ancestors_root ancestors_step)

lemma find_path_lacks:
  assumes "dir_lacks w name p"
  shows "find_path name (Some p) w =
     (if os_path_dirname p = p then (Inr None, w\<lparr>listed := listed w @ [p]\<rparr>)
      else find_path name (Some (os_path_dirname p)) (w\<lparr>listed := listed w @ [p]\<rparr>))"
  using assms find_path_root [of p w _ name] find_path_ascend [of p w _ name]
  by (auto simp: dir_lacks_def split: sum.splits)

lemma find_path_has:
  assumes "dir_has w name p"
  shows "find_path name (Some p) w =
     (Inr (Some (os_path_join p name)),
      w\<lparr>stdout := stdout w @ [name @ '' found: '' @ os_path_join p name],
        listed := listed w @ [p]\<rparr>)"
  using assms find_path_found [of p w _ name]
  by (auto simp: dir_has_def split: sum.splits)

lemma find_path_fails:
  assumes "\<not> dir_has w name p" "\<not> dir_lacks w name p"
  shows "\<exists>e. find_path name (Some p) w = (Inl e, w\<lparr>listed := listed w @ [p]\<rparr>)"
  using assms find_path_error [of p w _ name]
  by (auto simp: dir_has_def dir_lacks_def split: sum.splits)

lemma find_path_None_iff:
  "fst (find_path name (Some p) w) = Inr None \<longleftrightarrow>
   (\<forall>d \<in> set (ancestors p). dir_lacks w name d)"
proof (induction p arbitrary: w rule: ancestors.induct)
  case (1 p)
  show ?case
  proof (cases "dir_lacks w name p")
    case True
    show ?thesis
    proof (cases "os_path_dirname p = p")
      case root: True
      with True show ?thesis
        by (simp add: find_path_lacks ancestors_root)
    next
      case False
      with True "1.IH" [OF False, of "w\<lparr>listed := listed w @ [p]\<rparr>"] show ?thesis
        by (simp add: find_path_lacks ancestors_step)
    qed
  next
    case False
    obtain ds where ds: "ancestors p = p # ds"
      using ancestors_hd by blast
    have "fst (find_path name (Some p) w) \<noteq> Inr None"
    proof (cases "dir_has w name p")
      case True
      then show ?thesis by (simp add: find_path_has)
    next
      case nh: False
      with False find_path_fails [of w name p] show ?thesis by auto
    qed
    with False ds show ?thesis by simp
  qed
qed

lemma find_path_listed:
  "listed (snd (find_path name (Some p) w)) =
     listed w @ take (Suc (length (takeWhile (dir_lacks w name) (ancestors p)))) (ancestors p)"
proof (induction p arbitrary: w rule: ancestors.induct)
  case (1 p)
  show ?case
  proof (cases "dir_lacks w name p")
    case True
    show ?thesis
    proof (cases "os_path_dirname p = p")
      case root: True
      with True show ?thesis
        by (simp add: find_path_lacks ancestors_root)
    next
      case False
      with True "1.IH" [OF False, of "w\<lparr>listed := listed w @ [p]\<rparr>"] show ?thesis
        by (simp add: find_path_lacks ancestors_step)
    qed
  next
    case False
    obtain ds where ds: "ancestors p = p # ds"
      using ancestors_hd by blast
    have "listed (snd (find_path name (Some p) w)) = listed w @ [p]"
    proof (cases "dir_has w name p")
      case True
      then show ?thesis by (simp add: find_path_has)
    next
      case nh: False
      with False find_path_fails [of w name p] show ?thesis by auto
    qed
    with False ds show ?thesis by simp
  qed
qed

lemma find_path_first_has:
  assumes "k < length (ancestors p)"
    and "\<forall>j<k. dir_lacks w name (ancestors p ! j)"
    and "dir_has w name (ancestors p ! k)"
  shows "find_path name (Some p) w =
     (Inr (Some (os_path_join (ancestors p ! k) name)),
      w\<lparr>stdout := stdout w @ [name @ '' found: '' @ os_path_join (ancestors p ! k) name],
        listed := listed w @ take (Suc k) (ancestors p)\<rparr>)"
  using assms
proof (induction k arbitrary: p w)
  case 0
  obtain ds where ds: "ancestors p = p # ds"
    using ancestors_hd by blast
  with 0 show ?case by (simp add: find_path_has)
next
  case (Suc k)
  have ne: "os_path_dirname p \<noteq> p"
    using Suc.prems(1) by (auto simp: ancestors_root)
  then have anc: "ancestors p = p # ancestors (os_path_dirname p)"
    by (rule ancestors_step)
  have l0: "dir_lacks w name p"
    using Suc.prems(2) anc by auto
  let ?w = "w\<lparr>listed := listed w @ [p]\<rparr>"
  have "find_path name (Some (os_path_dirname p)) ?w =
     (Inr (Some (os_path_join (ancestors (os_path_dirname p) ! k) name)),
      ?w\<lparr>stdout := stdout ?w @ [name @ '' found: '' @
                 os_path_join (ancestors (os_path_dirname p) ! k) name],
        listed := listed ?w @ take (Suc k) (ancestors (os_path_dirname p))\<rparr>)"
  proof (rule Suc.IH)
    show "k < length (ancestors (os_path_dirname p))"
      using Suc.prems(1) anc by simp
    show "\<forall>j<k. dir_lacks ?w name (ancestors (os_path_dirname p) ! j)"
      using Suc.prems(2) anc by auto
    show "dir_has ?w name (ancestors (os_path_dirname p) ! k)"
      using Suc.prems(3) anc by simp
  qed
  with l0 ne anc show ?case
    by (simp add: find_path_lacks)
qed

section \<open>What \<^verbatim>\<open>find_path\<close> reads and writes\<close>

lemma dir_lacks_cong: "listing w' = listing w \<Longrightarrow> dir_lacks w' name = dir_lacks w name"
  by (rule ext) (simp add: dir_lacks_def fst_os_listdir)

lemma dir_has_cong: "listing w' = listing w \<Longrightarrow> dir_has w' name = dir_has w name"
  by (rule ext) (simp add: dir_has_def fst_os_listdir)

lemma find_path_cases:
  obtains (lacks) "dir_lacks w name p"
  | (has) "dir_has w name p"
      "find_path name (Some p) w =
         (Inr (Some (os_path_join p name)),
          w\<lparr>stdout := stdout w @ [name @ '' found: '' @ os_path_join p name],
            listed := listed w @ [p]\<rparr>)"
  | (fails) e where "\<not> dir_lacks w name p" "\<not> dir_has w name p"
      "find_path name (Some p) w = (Inl e, w\<lparr>listed := listed w @ [p]\<rparr>)"
proof (cases "dir_lacks w name p")
  case True
  then show ?thesis by (rule lacks)
next
  case nl: False
  show ?thesis
  proof (cases "dir_has w name p")
    case True
    from True find_path_has [OF True] show ?thesis by (rule has)
  next
    case False
    obtain e where "find_path name (Some p) w = (Inl e, w\<lparr>listed := listed w @ [p]\<rparr>)"
      using find_path_fails [OF False nl] by blast
    with nl False show ?thesis by (rule fails)
  qed
qed

lemma find_path_Some_frame:
  "cwd (snd (find_path name (Some p) w)) = cwd w \<and>
   listing (snd (find_path name (Some p) w)) = listing w"
proof (induction p arbitrary: w rule: ancestors.induct)
  case (1 p)
  show ?case
  proof (cases w name p rule: find_path_cases)
    case lacks
    show ?thesis
    proof (cases "os_path_dirname p = p")
      case True
      with lacks show ?thesis by (simp add: find_path_lacks)
    next
      case False
      with lacks "1.IH" [OF False, of "w\<lparr>listed := listed w @ [p]\<rparr>"] show ?thesis
        by (simp add: find_path_lacks)
    qed
  next
    case has
    show ?thesis unfolding has(2) by simp
  next
    case (fails e)
    show ?thesis unfolding fails(3) by simp
  qed
qed

lemma find_path_frame:
  "cwd (snd (find_path name path_arg w)) = cwd w \<and>
   listing (snd (find_path name path_arg w)) = listing w"
  by (cases path_arg) (simp_all add: find_path_None find_path_Some_frame)


lemma find_path_Some_fs_only:
  "listing w' = listing w \<Longrightarrow>
   fst (find_path name (Some p) w') = fst (find_path name (Some p) w)"
proof (induction p arbitrary: w w' rule: ancestors.induct)
  case (1 p)
  note eq = dir_lacks_cong [OF "1.prems", of name] dir_has_cong [OF "1.prems", of name]
  show ?case
  proof (cases w name p rule: find_path_cases)
    case lacks
    then have lacks': "dir_lacks w' name p" using eq by simp
    show ?thesis
    proof (cases "os_path_dirname p = p")
      case True
      with lacks lacks' show ?thesis by (simp add: find_path_lacks)
    next
      case False
      have "fst (find_path name (Some (os_path_dirname p)) (w'\<lparr>listed := listed w' @ [p]\<rparr>)) =
            fst (find_path name (Some (os_path_dirname p)) (w\<lparr>listed := listed w @ [p]\<rparr>))"
        by (rule "1.IH" [OF False]) (simp add: "1.prems")
      with False lacks lacks' show ?thesis by (simp add: find_path_lacks)
    qed
  next
    case has
    then have "dir_has w' name p" using eq by simp
    from find_path_has [OF this] show ?thesis unfolding has(2) by simp
  next
    case (fails e)
    obtain e' where e': "fst (os_listdir p w) = Inl e'"
      using fails(1,2) by (cases "fst (os_listdir p w)") (simp_all add: dir_lacks_def dir_has_def)
    then have e'': "fst (os_listdir p w') = Inl e'"
      using "1.prems" by (auto simp: fst_os_listdir split: if_splits)
    have "fst (find_path name (Some p) w') = Inl e'"
      using find_path_error [OF e'', of name] by simp
    moreover have "fst (find_path name (Some p) w) = Inl e'"
      using find_path_error [OF e', of name] by simp
    ultimately show ?thesis by simp
  qed
qed

lemma find_path_fs_only:
  "cwd w' = cwd w \<Longrightarrow> listing w' = listing w \<Longrightarrow>
   fst (find_path name path_arg w') = fst (find_path name path_arg w)"
proof (cases path_arg)
  case None
  assume "cwd w' = cwd w" "listing w' = listing w"
  with find_path_Some_fs_only [of w' w name "cwd w"] None show ?thesis
    by (simp add: find_path_None)
next
  case (Some p)
  assume "listing w' = listing w"
  with find_path_Some_fs_only [of w' w name p] Some show ?thesis
    by simp
qed

lemma length_ancestors: "length (ancestors p) \<le> Suc (length p)"
proof (induction p rule: ancestors.induct)
  case (1 p)
  show ?case
  proof (cases "os_path_dirname p = p")
    case True
    then show ?thesis by (simp add: ancestors_root)
  next
    case False
    with "1.IH" dirname_shorter [of p] show ?thesis
      by (simp add: ancestors_step)
  qed
qed

lemma ancestors_last_root:
  "os_path_dirname (last (ancestors p)) = last (ancestors p) \<and>
   (\<forall>d \<in> set (butlast (ancestors p)). os_path_dirname d \<noteq> d)"
proof (induction p rule: ancestors.induct)
  case (1 p)
  show ?case
  proof (cases "os_path_dirname p = p")
    case True
    then show ?thesis by (simp add: ancestors_root)
  next
    case False
    obtain ds where "ancestors (os_path_dirname p) = os_path_dirname p # ds"
      using ancestors_hd by blast
    with False "1.IH" show ?thesis
      by (simp add: ancestors_step)
  qed
qed

section \<open>Fixed points of \<^verbatim>\<open>dirname\<close>, relative and absolute paths\<close>

lemma dirname_no_slash: "CHR ''/'' \<notin> set p \<Longrightarrow> os_path_dirname p = []"
proof -
  assume "CHR ''/'' \<notin> set p"
  then have "dropWhile (\<lambda>c. c \<noteq> CHR ''/'') (rev p) = []"
    by auto
  then show ?thesis
    by (simp add: os_path_dirname_def)
qed

lemma rstrip_shorter:
  assumes "ys \<noteq> []" and "P (hd ys)"
  shows "length (dropWhile P ys) < length ys"
proof -
  obtain y ys' where ys: "ys = y # ys'"
    using assms(1) by (cases ys) auto
  have "length (dropWhile P ys') \<le> length ys'"
    by (rule length_dropWhile_le)
  with ys assms(2) show ?thesis by simp
qed

lemma dirname_fixed_slashes:
  assumes "os_path_dirname p = p"
  shows "p = replicate (length p) (CHR ''/'')"
proof -
  define ys where "ys = dropWhile (\<lambda>c. c \<noteq> CHR ''/'') (rev p)"
  have le: "length ys \<le> length p"
    unfolding ys_def using length_dropWhile_le [of _ "rev p"] by simp
  show ?thesis
  proof (cases "ys \<noteq> [] \<and> rev ys \<noteq> replicate (length ys) (CHR ''/'')")
    case True
    then have "hd ys = CHR ''/''"
      unfolding ys_def using hd_dropWhile [of "\<lambda>c. c \<noteq> CHR ''/''" "rev p"] by simp
    with True have "length (dropWhile (\<lambda>c. c = CHR ''/'') ys) < length ys"
      by (simp add: rstrip_shorter)
    moreover have "os_path_dirname p = rev (dropWhile (\<lambda>c. c = CHR ''/'') ys)"
      using True by (simp add: os_path_dirname_def ys_def [symmetric])
    ultimately have "length (os_path_dirname p) < length p"
      using le by simp
    with assms show ?thesis by simp
  next
    case False
    then have "os_path_dirname p = rev ys"
      by (auto simp: os_path_dirname_def ys_def [symmetric])
    with assms False show ?thesis by auto
  qed
qed

lemma dirname_keeps_hd:
  "os_path_dirname p \<noteq> [] \<Longrightarrow> p \<noteq> [] \<and> hd (os_path_dirname p) = hd p"
proof -
  assume ne: "os_path_dirname p \<noteq> []"
  obtain zs where "p = os_path_dirname p @ zs"
    using prefix_dirname [of p] by (auto simp: prefix_def)
  then have "hd p = hd (os_path_dirname p @ zs)" "p \<noteq> []"
    using ne by auto
  with ne show ?thesis by simp
qed

lemma dirname_relative: "\<not> os_path_isabs p \<Longrightarrow> \<not> os_path_isabs (os_path_dirname p)"
  using dirname_keeps_hd [of p] by (auto simp: os_path_isabs_def)

lemma relative_fixed_empty:
  assumes "\<not> os_path_isabs p" and "os_path_dirname p = p"
  shows "p = []"
proof (rule ccontr)
  assume ne: "p \<noteq> []"
  have "hd (replicate (length p) (CHR ''/'')) = CHR ''/''"
    using ne by (cases p) simp_all
  with dirname_fixed_slashes [OF assms(2)] have "hd p = CHR ''/''" by simp
  with ne assms(1) show False by (simp add: os_path_isabs_def)
qed

lemma relative_reaches_empty: "\<not> os_path_isabs p \<Longrightarrow> last (ancestors p) = []"
proof (induction p rule: ancestors.induct)
  case (1 p)
  show ?case
  proof (cases "os_path_dirname p = p")
    case True
    with "1.prems" show ?thesis
      by (simp add: ancestors_root relative_fixed_empty)
  next
    case False
    obtain ds where "ancestors (os_path_dirname p) = os_path_dirname p # ds"
      using ancestors_hd by blast
    with False "1.IH" [OF False dirname_relative [OF "1.prems"]] show ?thesis
      by (simp add: ancestors_step)
  qed
qed

lemma dirname_absolute:
  assumes "os_path_isabs p"
  shows "os_path_isabs (os_path_dirname p)"
proof -
  define ys where "ys = dropWhile (\<lambda>c. c \<noteq> CHR ''/'') (rev p)"
  have "CHR ''/'' \<in> set (rev p)"
    using assms by (cases p) (auto simp: os_path_isabs_def)
  then have ys_ne: "ys \<noteq> []"
    unfolding ys_def by (auto simp: dropWhile_eq_Nil_conv)
  have "os_path_dirname p \<noteq> []"
  proof (cases "rev ys \<noteq> replicate (length ys) (CHR ''/'')")
    case True
    then have "\<not> (\<forall>c \<in> set (rev ys). c = CHR ''/'')"
      using replicate_length_same [of "rev ys" "CHR ''/''"] by auto
    then have "dropWhile (\<lambda>c. c = CHR ''/'') ys \<noteq> []"
      by (auto simp: dropWhile_eq_Nil_conv)
    moreover have "os_path_dirname p = rev (dropWhile (\<lambda>c. c = CHR ''/'') ys)"
      using True ys_ne by (simp add: os_path_dirname_def ys_def [symmetric])
    ultimately show ?thesis by simp
  next
    case False
    then have "os_path_dirname p = rev ys"
      by (auto simp: os_path_dirname_def ys_def [symmetric])
    with ys_ne show ?thesis by simp
  qed
  with dirname_keeps_hd [of p] assms show ?thesis
    by (simp add: os_path_isabs_def)
qed

lemma absolute_ancestors: "os_path_isabs p \<Longrightarrow> \<forall>d \<in> set (ancestors p). os_path_isabs d"
proof (induction p rule: ancestors.induct)
  case (1 p)
  show ?case
  proof (cases "os_path_dirname p = p")
    case True
    with "1.prems" show ?thesis by (simp add: ancestors_root)
  next
    case False
    with "1.IH" [OF False dirname_absolute [OF "1.prems"]] "1.prems" show ?thesis
      by (simp add: ancestors_step)
  qed
qed

section \<open>The example filesystem\<close>

lemma dir_lacks_not_has: "dir_lacks w name d \<Longrightarrow> \<not> dir_has w name d"
  by (simp add: dir_lacks_def dir_has_def split: sum.splits)

lemma dirname_eval:
  "os_path_dirname ''/srv/app'' = ''/srv''"
  "os_path_dirname ''/srv'' = ''/''"
  "os_path_dirname ''/'' = ''/''"
  "os_path_dirname ''app'' = []"
  by (simp_all add: os_path_dirname_def)

lemma ancestors_eval:
  "ancestors ''/srv/app'' = [''/srv/app'', ''/srv'', ''/'']"
  "ancestors ''/srv'' = [''/srv'', ''/'']"
  "ancestors ''app'' = [''app'', []]"
  by (simp_all add: ancestors.simps dirname_eval os_path_dirname_def)

lemma demo_listing:
  "fst (os_listdir ''/srv/app'' demo_world) = Inr [''main.py'']"
  "fst (os_listdir ''/srv'' demo_world) = Inr [''app'']"
  "fst (os_listdir ''/'' demo_world) = Inr [''srv'', ''ComfyUI'']"
  "fst (os_listdir ''app'' demo_world) = Inr [''main.py'']"
  "fst (os_listdir [] demo_world) = Inl FileNotFoundError"
  by (simp_all add: fst_os_listdir demo_world_def demo_dirs_def)

section \<open>Properties of \<^verbatim>\<open>find_path\<close>\<close>

text \<open>
  The search order over the path strings that \<^verbatim>\<open>os.path.dirname\<close> produces from the
  starting directory. If the listing of the starting directory holds the name, the result
  is \<open>join start name\<close> and the starting directory is the only one listed. If the
  listings of the starting directory and of its parent string succeed without the name
  and the listing of the parent's parent holds it, the result is the joined path in that
  directory, after exactly these three listings. In general, when the first \<open>k\<close>
  members of the chain list without the name and the next one holds it, the result is
  the joined path in that one, after \<open>k + 1\<close> listings. For a relative starting
  directory the chain ends in the empty string, not in the directories above the working
  directory.
\<close>

lemma find_path_closest_match:
  "(dir_has w name start \<longrightarrow>
      fst (find_path name (Some start) w) = Inr (Some (os_path_join start name)) \<and>
      listed (snd (find_path name (Some start) w)) = listed w @ [start])
   \<and> (dir_lacks w name start \<and> dir_lacks w name (os_path_dirname start) \<and>
       dir_has w name (os_path_dirname (os_path_dirname start)) \<longrightarrow>
      fst (find_path name (Some start) w) =
        Inr (Some (os_path_join (os_path_dirname (os_path_dirname start)) name)) \<and>
      listed (snd (find_path name (Some start) w)) =
        listed w @ [start, os_path_dirname start, os_path_dirname (os_path_dirname start)])
   \<and> (k < length (ancestors start) \<and> (\<forall>j<k. dir_lacks w name (ancestors start ! j)) \<and>
       dir_has w name (ancestors start ! k) \<longrightarrow>
      fst (find_path name (Some start) w) = Inr (Some (os_path_join (ancestors start ! k) name)) \<and>
      listed (snd (find_path name (Some start) w)) = listed w @ take (Suc k) (ancestors start))"
proof -
  have a: "fst (find_path name (Some start) w) = Inr (Some (os_path_join start name)) \<and>
      listed (snd (find_path name (Some start) w)) = listed w @ [start]"
    if "dir_has w name start"
    using find_path_has [OF that] by simp
  have c: "fst (find_path name (Some start) w) = Inr (Some (os_path_join (ancestors start ! k) name)) \<and>
      listed (snd (find_path name (Some start) w)) = listed w @ take (Suc k) (ancestors start)"
    if "k < length (ancestors start)" "\<forall>j<k. dir_lacks w name (ancestors start ! j)"
      "dir_has w name (ancestors start ! k)" for k
    using find_path_first_has [OF that] by simp
  have b: "fst (find_path name (Some start) w) =
        Inr (Some (os_path_join (os_path_dirname (os_path_dirname start)) name)) \<and>
      listed (snd (find_path name (Some start) w)) =
        listed w @ [start, os_path_dirname start, os_path_dirname (os_path_dirname start)]"
    if l0: "dir_lacks w name start" and l1: "dir_lacks w name (os_path_dirname start)"
      and h2: "dir_has w name (os_path_dirname (os_path_dirname start))"
  proof -
    let ?d = "os_path_dirname start"
    have ne1: "os_path_dirname ?d \<noteq> ?d"
      using l1 h2 dir_lacks_not_has by auto
    have ne0: "?d \<noteq> start"
      using l0 h2 dir_lacks_not_has by auto
    obtain ds where ds: "ancestors (os_path_dirname ?d) = os_path_dirname ?d # ds"
      using ancestors_hd by blast
    have anc: "ancestors start = start # ?d # os_path_dirname ?d # ds"
      using ne0 ne1 ds by (simp add: ancestors_step)
    have "\<forall>j<2. dir_lacks w name (ancestors start ! j)"
      using l0 l1 anc by (auto simp: less_Suc_eq numeral_2_eq_2)
    with c [of 2] anc h2 show ?thesis
      by (simp add: numeral_2_eq_2)
  qed
  show ?thesis
    using a b c by blast
qed

lemma find_path_closest_match_example:
  "fst (find_path ''main.py'' (Some ''/srv/app'') demo_world) = Inr (Some ''/srv/app/main.py'')
   \<and> listed (snd (find_path ''main.py'' (Some ''/srv/app'') demo_world)) = [''/srv/app'']
   \<and> fst (find_path ''ComfyUI'' (Some ''/srv/app'') demo_world) = Inr (Some ''/ComfyUI'')
   \<and> listed (snd (find_path ''ComfyUI'' (Some ''/srv/app'') demo_world)) =
        [''/srv/app'', ''/srv'', ''/'']
   \<and> fst (find_path ''app'' (Some ''/srv/app'') demo_world) = Inr (Some ''/srv/app'')"
proof -
  have h0: "dir_has demo_world ''main.py'' ''/srv/app''"
    by (simp add: dir_has_def demo_listing)
  have l0: "dir_lacks demo_world ''ComfyUI'' ''/srv/app''"
    and l1: "dir_lacks demo_world ''ComfyUI'' ''/srv''"
    and h2: "dir_has demo_world ''ComfyUI'' ''/''"
    by (simp_all add: dir_has_def dir_lacks_def demo_listing)
  have m0: "dir_lacks demo_world ''app'' ''/srv/app''"
    and m1: "dir_has demo_world ''app'' ''/srv''"
    by (simp_all add: dir_has_def dir_lacks_def demo_listing)
  have m: "\<forall>j<1. dir_lacks demo_world ''app'' (ancestors ''/srv/app'' ! j)"
    using m0 by (simp add: ancestors_eval)
  have ls: "listed demo_world = []"
    by (simp add: demo_world_def)
  show ?thesis
    using find_path_closest_match [of demo_world "''main.py''" "''/srv/app''" 0] h0
      find_path_closest_match [of demo_world "''ComfyUI''" "''/srv/app''" 0] l0 l1 h2
      find_path_closest_match [of demo_world "''app''" "''/srv/app''" 1] m m1
    by (simp add: dirname_eval ancestors_eval os_path_join_def ls)
qed

text \<open>
  C3. The claim that a match in the ancestor two levels up is returned when no closer
  directory holds the name fails for a relative starting directory. In the example
  filesystem the working directory is \<^verbatim>\<open>/srv\<close>, so \<^verbatim>\<open>app\<close> is the directory
  \<^verbatim>\<open>/srv/app\<close>; it and its parent \<^verbatim>\<open>/srv\<close> do not hold \<^verbatim>\<open>ComfyUI\<close>, and the
  root, two levels up, does. The search from \<^verbatim>\<open>app\<close> lists \<^verbatim>\<open>app\<close>, then the empty
  string, and raises \<^verbatim>\<open>FileNotFoundError\<close>; the search from \<^verbatim>\<open>/srv/app\<close>, the same
  directory, returns \<^verbatim>\<open>/ComfyUI\<close>.
\<close>

theorem find_path_relative_misses_ancestor:
  "find_path ''ComfyUI'' (Some ''app'') demo_world =
     (Inl FileNotFoundError, demo_world\<lparr>listed := [''app'', []]\<rparr>)
   \<and> cwd demo_world = ''/srv''
   \<and> os_path_join (cwd demo_world) ''app'' = ''/srv/app''
   \<and> dir_lacks demo_world ''ComfyUI'' ''app''
   \<and> dir_lacks demo_world ''ComfyUI'' ''/srv/app''
   \<and> dir_lacks demo_world ''ComfyUI'' ''/srv''
   \<and> dir_has demo_world ''ComfyUI'' ''/''
   \<and> fst (find_path ''ComfyUI'' (Some ''/srv/app'') demo_world) = Inr (Some ''/ComfyUI'')"
proof -
  have l: "dir_lacks demo_world ''ComfyUI'' ''app''"
    "dir_lacks demo_world ''ComfyUI'' ''/srv/app''"
    "dir_lacks demo_world ''ComfyUI'' ''/srv''"
    and h: "dir_has demo_world ''ComfyUI'' ''/''"
    by (simp_all add: dir_lacks_def dir_has_def demo_listing)
  have e: "fst (os_listdir [] (demo_world\<lparr>listed := listed demo_world @ [''app'']\<rparr>)) =
      Inl FileNotFoundError"
    by (simp add: fst_os_listdir)
  have ls: "listed demo_world = []" and c: "cwd demo_world = ''/srv''"
    by (simp_all add: demo_world_def)
  have rel: "find_path ''ComfyUI'' (Some ''app'') demo_world =
     (Inl FileNotFoundError, demo_world\<lparr>listed := [''app'', []]\<rparr>)"
    using find_path_error [OF e, of "''ComfyUI''"] l(1)
    by (simp add: find_path_lacks dirname_eval ls)
  have ab: "fst (find_path ''ComfyUI'' (Some ''/srv/app'') demo_world) = Inr (Some ''/ComfyUI'')"
    using find_path_closest_match [of demo_world "''ComfyUI''" "''/srv/app''" 0] l(2,3) h
    by (simp add: dirname_eval os_path_join_def)
  have j: "os_path_join (cwd demo_world) ''app'' = ''/srv/app''"
    by (simp add: c os_path_join_def)
  show ?thesis
    using rel c j l h ab by simp
qed

text \<open>
  C4. The claim that a search which finds the name nowhere returns \<^verbatim>\<open>None\<close> and
  raises nothing fails for a relative starting directory. In the example filesystem no
  directory at all holds \<^verbatim>\<open>extra_model_paths.yaml\<close>; the search from the relative
  path \<^verbatim>\<open>app\<close> lists \<^verbatim>\<open>app\<close>, takes its parent, the empty string, and the
  listing of the empty string raises \<^verbatim>\<open>FileNotFoundError\<close>, which reaches the caller.
\<close>

theorem find_path_missing_target_relative:
  "find_path ''extra_model_paths.yaml'' (Some ''app'') demo_world =
     (Inl FileNotFoundError, demo_world\<lparr>listed := [''app'', []]\<rparr>)
   \<and> (\<forall>d. \<not> dir_has demo_world ''extra_model_paths.yaml'' d)"
proof -
  have l: "dir_lacks demo_world ''extra_model_paths.yaml'' ''app''"
    by (simp add: dir_lacks_def demo_listing)
  have e: "fst (os_listdir [] (demo_world\<lparr>listed := listed demo_world @ [''app'']\<rparr>)) =
      Inl FileNotFoundError"
    by (simp add: fst_os_listdir)
  have ls: "listed demo_world = []"
    by (simp add: demo_world_def)
  have "find_path ''extra_model_paths.yaml'' (Some ''app'') demo_world =
     (Inl FileNotFoundError, demo_world\<lparr>listed := [''app'', []]\<rparr>)"
    using find_path_error [OF e, of "''extra_model_paths.yaml''"] l
    by (simp add: find_path_lacks dirname_eval ls)
  moreover have "\<not> dir_has demo_world ''extra_model_paths.yaml'' d" for d
    by (simp add: dir_has_def fst_os_listdir demo_world_def demo_dirs_def)
  ultimately show ?thesis by blast
qed

text \<open>
  The directories listed by a call are an initial segment of the chain
  \<open>ancestors start\<close>, which has at most \<open>length start + 1\<close> members; the last
  member of the chain is its own parent and no earlier member is. A call that returns
  \<^verbatim>\<open>None\<close> has listed the whole chain.
\<close>

lemma find_path_lists_chain:
  "listed (snd (find_path name (Some start) w)) =
     listed w @
     take (Suc (length (takeWhile (dir_lacks w name) (ancestors start)))) (ancestors start)
   \<and> length (ancestors start) \<le> Suc (length start)
   \<and> os_path_dirname (last (ancestors start)) = last (ancestors start)
   \<and> (\<forall>d \<in> set (butlast (ancestors start)). os_path_dirname d \<noteq> d)
   \<and> (fst (find_path name (Some start) w) = Inr None \<longrightarrow>
        listed (snd (find_path name (Some start) w)) = listed w @ ancestors start)"
proof -
  have none: "listed (snd (find_path name (Some start) w)) = listed w @ ancestors start"
    if "fst (find_path name (Some start) w) = Inr None"
  proof -
    have "\<forall>d \<in> set (ancestors start). dir_lacks w name d"
      using that by (simp add: find_path_None_iff)
    then have tw: "takeWhile (dir_lacks w name) (ancestors start) = ancestors start"
      by (simp add: takeWhile_eq_all_conv)
    have "take (Suc (length (ancestors start))) (ancestors start) = ancestors start"
      by simp
    then show ?thesis
      unfolding find_path_listed tw by (rule arg_cong)
  qed
  with find_path_listed [of name start w] length_ancestors [of start]
    ancestors_last_root [of start]
  show ?thesis
    by blast
qed

text \<open>
  C5. The claim that the ascent stops exactly when the parent of the current directory is
  the directory itself, the root being reached, fails for a relative starting directory.
  In the example filesystem nothing holds \<^verbatim>\<open>custom_nodes\<close>. The search from
  \<^verbatim>\<open>app\<close> lists \<^verbatim>\<open>app\<close>, whose parent is the empty string, and ends there: the
  listing of the empty string raises \<^verbatim>\<open>FileNotFoundError\<close> before any parent is
  compared, and the root is never listed. The search from \<^verbatim>\<open>/srv/app\<close>, the same
  directory, lists up to the root, which is its own parent, and returns \<^verbatim>\<open>None\<close>.
\<close>

theorem find_path_relative_stops_by_error:
  "find_path ''custom_nodes'' (Some ''app'') demo_world =
     (Inl FileNotFoundError, demo_world\<lparr>listed := [''app'', []]\<rparr>)
   \<and> os_path_dirname ''app'' = []
   \<and> os_path_join (cwd demo_world) ''app'' = ''/srv/app''
   \<and> fst (find_path ''custom_nodes'' (Some ''/srv/app'') demo_world) = Inr None
   \<and> listed (snd (find_path ''custom_nodes'' (Some ''/srv/app'') demo_world)) =
        [''/srv/app'', ''/srv'', ''/'']
   \<and> os_path_dirname ''/'' = ''/''"
proof -
  have l: "dir_lacks demo_world ''custom_nodes'' ''app''"
    "dir_lacks demo_world ''custom_nodes'' ''/srv/app''"
    "dir_lacks demo_world ''custom_nodes'' ''/srv''"
    "dir_lacks demo_world ''custom_nodes'' ''/''"
    by (simp_all add: dir_lacks_def demo_listing)
  have e: "fst (os_listdir [] (demo_world\<lparr>listed := listed demo_world @ [''app'']\<rparr>)) =
      Inl FileNotFoundError"
    by (simp add: fst_os_listdir)
  have ls: "listed demo_world = []"
    by (simp add: demo_world_def)
  have rel: "find_path ''custom_nodes'' (Some ''app'') demo_world =
     (Inl FileNotFoundError, demo_world\<lparr>listed := [''app'', []]\<rparr>)"
    using find_path_error [OF e, of "''custom_nodes''"] l(1)
    by (simp add: find_path_lacks dirname_eval ls)
  have n: "fst (find_path ''custom_nodes'' (Some ''/srv/app'') demo_world) = Inr None"
    using l by (simp add: find_path_None_iff ancestors_eval)
  have v: "listed (snd (find_path ''custom_nodes'' (Some ''/srv/app'') demo_world)) =
        [''/srv/app'', ''/srv'', ''/'']"
    using l by (simp add: find_path_listed ancestors_eval ls)
  have j: "os_path_join (cwd demo_world) ''app'' = ''/srv/app''"
    by (simp add: demo_world_def os_path_join_def)
  show ?thesis
    using rel n v j by (simp add: dirname_eval)
qed

text \<open>
  C8. A call leaves the working directory and the directory listings as they were, and
  its outcome depends on nothing else in the world: a second call with the same
  arguments, made in the world the first call left behind, has the same outcome, and so
  has a call in any world with the same working directory and listings (whatever was
  printed or listed before).
\<close>

theorem find_path_deterministic:
  "fst (find_path name path_arg (snd (find_path name path_arg w))) =
     fst (find_path name path_arg w)
   \<and> cwd (snd (find_path name path_arg w)) = cwd w
   \<and> listing (snd (find_path name path_arg w)) = listing w
   \<and> (cwd w' = cwd w \<and> listing w' = listing w \<longrightarrow>
        fst (find_path name path_arg w') = fst (find_path name path_arg w))"
proof -
  have fr: "cwd (snd (find_path name path_arg w)) = cwd w"
    "listing (snd (find_path name path_arg w)) = listing w"
    using find_path_frame [of name path_arg w] by simp_all
  have "fst (find_path name path_arg (snd (find_path name path_arg w))) =
     fst (find_path name path_arg w)"
    using fr by (rule find_path_fs_only)
  with fr find_path_fs_only [of w' w name path_arg] show ?thesis
    by blast
qed

theorem find_path_deterministic_witness:
  "fst (find_path ''ComfyUI'' None
          (demo_world\<lparr>stdout := [''earlier output''], listed := [''/tmp'']\<rparr>)) =
     fst (find_path ''ComfyUI'' None demo_world)
   \<and> fst (find_path ''ComfyUI'' None (snd (find_path ''ComfyUI'' None demo_world))) =
     fst (find_path ''ComfyUI'' None demo_world)"
  using find_path_deterministic
    [of "''ComfyUI''" None demo_world
        "demo_world\<lparr>stdout := [''earlier output''], listed := [''/tmp'']\<rparr>"]
  by simp

text \<open>
  C9. For a relative starting directory of one component (not empty, no slash) whose
  listing succeeds without the name, the parent is the empty string and the call raises
  the \<^verbatim>\<open>FileNotFoundError\<close> of listing it. A call returns \<^verbatim>\<open>None\<close> only for an
  absolute starting directory; and for an absolute starting directory it does return
  \<^verbatim>\<open>None\<close> whenever every directory of the chain can be listed and none holds the
  name.
\<close>

theorem find_path_relative_start:
  "(start \<noteq> [] \<and> CHR ''/'' \<notin> set start \<and> dir_lacks w name start \<longrightarrow>
      os_path_dirname start = [] \<and>
      find_path name (Some start) w =
        (Inl FileNotFoundError, w\<lparr>listed := listed w @ [start, []]\<rparr>))
   \<and> (fst (find_path name (Some start) w) = Inr None \<longrightarrow> os_path_isabs start)
   \<and> (os_path_isabs start \<and>
       (\<forall>d \<in> set (ancestors start).
          case listing w d of Inl e \<Rightarrow> False | Inr es \<Rightarrow> name \<notin> set es) \<longrightarrow>
      fst (find_path name (Some start) w) = Inr None)"
proof -
  have a: "os_path_dirname start = [] \<and>
      find_path name (Some start) w =
        (Inl FileNotFoundError, w\<lparr>listed := listed w @ [start, []]\<rparr>)"
    if ne: "start \<noteq> []" and ns: "CHR ''/'' \<notin> set start" and l: "dir_lacks w name start"
  proof -
    have d: "os_path_dirname start = []"
      using ns by (rule dirname_no_slash)
    have "fst (os_listdir [] (w\<lparr>listed := listed w @ [start]\<rparr>)) = Inl FileNotFoundError"
      by (simp add: fst_os_listdir)
    from find_path_error [OF this, of name] l d ne show ?thesis
      by (simp add: find_path_lacks)
  qed
  have b: "os_path_isabs start" if n: "fst (find_path name (Some start) w) = Inr None"
  proof (rule ccontr)
    assume "\<not> os_path_isabs start"
    then have "last (ancestors start) = []"
      by (rule relative_reaches_empty)
    moreover obtain ds where "ancestors start = start # ds"
      using ancestors_hd by blast
    ultimately have "[] \<in> set (ancestors start)"
      using last_in_set [of "ancestors start"] by auto
    with n have "dir_lacks w name []"
      by (simp add: find_path_None_iff)
    then show False
      by (simp add: dir_lacks_def fst_os_listdir)
  qed
  have c: "fst (find_path name (Some start) w) = Inr None"
    if ab: "os_path_isabs start"
      and l: "\<forall>d \<in> set (ancestors start).
          case listing w d of Inl e \<Rightarrow> False | Inr es \<Rightarrow> name \<notin> set es"
  proof -
    have "dir_lacks w name d" if d: "d \<in> set (ancestors start)" for d
    proof -
      have "d \<noteq> []"
        using absolute_ancestors [OF ab] d by (auto simp: os_path_isabs_def)
      with l d show ?thesis
        by (auto simp: dir_lacks_def fst_os_listdir)
    qed
    then show ?thesis
      by (simp add: find_path_None_iff)
  qed
  show ?thesis
    using a b c by blast
qed

theorem find_path_relative_start_witness:
  "find_path ''ComfyUI'' (Some ''app'') demo_world =
     (Inl FileNotFoundError, demo_world\<lparr>listed := [''app'', []]\<rparr>)
   \<and> fst (find_path ''main.py'' (Some ''/srv'') demo_world) = Inr None
   \<and> os_path_isabs ''/srv''"
proof -
  have l: "dir_lacks demo_world ''ComfyUI'' ''app''"
    by (simp add: dir_lacks_def demo_listing)
  have ls: "listed demo_world = []"
    by (simp add: demo_world_def)
  have ab: "os_path_isabs ''/srv''"
    by (simp add: os_path_isabs_def)
  have m: "\<forall>d \<in> set (ancestors ''/srv'').
      case listing demo_world d of Inl e \<Rightarrow> False | Inr es \<Rightarrow> ''main.py'' \<notin> set es"
    by (simp add: ancestors_eval demo_world_def demo_dirs_def)
  show ?thesis
    using find_path_relative_start [of "''app''" demo_world "''ComfyUI''"] l ls
      find_path_relative_start [of "''/srv''" demo_world "''main.py''"] ab m
    by simp
qed

end
